theory Spec2Isabelle
  imports Main "HOL-Library.Sublist"
begin

section \<open>Data model\<close>

text \<open>
  The script \<^verbatim>\<open>cs_course_enrollment.py\<close> scrapes course records and reports them.
  A Python \<^verbatim>\<open>str\<close> is modelled as a \<^typ>\<open>string\<close> whose characters are the code points
  0..255; \<^verbatim>\<open>len\<close> is \<^const>\<open>length\<close>. Every exception the modelled code can raise is
  a subclass of Python's \<^verbatim>\<open>Exception\<close>, so \<^verbatim>\<open>except Exception\<close> catches each
  value of the type \<open>error\<close>.
\<close>

datatype error = ValueError | WebDriverException | OSError | CsvError

record CourseInfo =
  title :: string
  class_code :: string
  enrolled :: string
  wait_list :: string

section \<open>Python primitives used by the script\<close>

text \<open>\<^verbatim>\<open>str.isspace\<close> on one character: the white space of the code points 0..255.\<close>

definition str_isspace :: "char \<Rightarrow> bool" where
  "str_isspace c =
     (let n = (of_char c :: nat)
      in (9 \<le> n \<and> n \<le> 13) \<or> (28 \<le> n \<and> n \<le> 32) \<or> n = 133 \<or> n = 160)"

text \<open>\<^verbatim>\<open>s.strip()\<close>: white space removed at both ends.\<close>

definition str_strip :: "string \<Rightarrow> string" where
  "str_strip s = rev (dropWhile str_isspace (rev (dropWhile str_isspace s)))"

text \<open>\<^verbatim>\<open>s.split(sep)\<close> for a separator of one character: one piece more than there are
  separators, empty pieces kept.\<close>

fun str_split :: "char \<Rightarrow> string \<Rightarrow> string list" where
  "str_split sep [] = [[]]"
| "str_split sep (c # cs) =
     (if c = sep then [] # str_split sep cs
      else (case str_split sep cs of
              [] \<Rightarrow> [[c]]
            | p # ps \<Rightarrow> (c # p) # ps))"

text \<open>
  \<^verbatim>\<open>int(s)\<close> in base 10. The interpreter skips white space at both ends (the ASCII
  white space 9..13 and 32; the white space 133 and 160 is turned into a blank first),
  reads one optional sign, then digits in which single underscores may separate digits,
  and raises \<^verbatim>\<open>ValueError\<close> on anything else. \<open>int_digits\<close> is the scanning loop: it
  collects the digit values, remembers the previous character, and stops at the first
  character that is neither a digit nor an underscore.
  The parameter \<open>m\<close> is the interpreter's limit \<^verbatim>\<open>sys.get_int_max_str_digits()\<close>
  (\<open>0\<close>: no limit; interpreters without the limit behave as \<open>m = 0\<close>): a literal of more
  than 640 digits and more than \<open>m\<close> digits raises \<^verbatim>\<open>ValueError\<close>.
\<close>

definition int_isspace :: "char \<Rightarrow> bool" where
  "int_isspace c =
     (let n = (of_char c :: nat)
      in (9 \<le> n \<and> n \<le> 13) \<or> n = 32 \<or> n = 133 \<or> n = 160)"

definition is_digit :: "char \<Rightarrow> bool" where
  "is_digit c = (let n = (of_char c :: nat) in 48 \<le> n \<and> n \<le> 57)"

definition digit_val :: "char \<Rightarrow> nat" where
  "digit_val c = of_char c - 48"

fun int_digits :: "string \<Rightarrow> nat list \<Rightarrow> char \<Rightarrow> (nat list \<times> string) option" where
  "int_digits [] ds prev = (if prev = CHR ''_'' then None else Some (ds, []))"
| "int_digits (c # cs) ds prev =
     (if c = CHR ''_'' then (if prev = CHR ''_'' then None else int_digits cs ds c)
      else if is_digit c then int_digits cs (ds @ [digit_val c]) c
      else if prev = CHR ''_'' then None
      else Some (ds, c # cs))"

definition digits_value :: "nat list \<Rightarrow> nat" where
  "digits_value ds = foldl (\<lambda>acc d. acc * 10 + d) 0 ds"

definition int_sign :: "string \<Rightarrow> bool \<times> string" where
  "int_sign s =
     (case s of
        [] \<Rightarrow> (False, [])
      | c # cs \<Rightarrow> if c = CHR ''+'' then (False, cs)
                 else if c = CHR ''-'' then (True, cs)
                 else (False, s))"

definition py_int :: "nat \<Rightarrow> string \<Rightarrow> error + int" where
  "py_int m s =
     (case int_sign (dropWhile int_isspace s) of
        (neg, body) \<Rightarrow>
          if body \<noteq> [] \<and> hd body = CHR ''_'' then Inl ValueError
          else (case int_digits body [] (CHR 0x00) of
                  None \<Rightarrow> Inl ValueError
                | Some (ds, rest) \<Rightarrow>
                    if ds = [] then Inl ValueError
                    else if dropWhile int_isspace rest \<noteq> [] then Inl ValueError
                    else if 640 < length ds \<and> 0 < m \<and> m < length ds then Inl ValueError
                    else Inr (if neg then - int (digits_value ds) else int (digits_value ds))))"

text \<open>\<^verbatim>\<open>max(iterable)\<close>: raises \<^verbatim>\<open>ValueError\<close> on an empty iterable.\<close>

definition py_max :: "nat list \<Rightarrow> error + nat" where
  "py_max xs = (case xs of [] \<Rightarrow> Inl ValueError | x # r \<Rightarrow> Inr (foldl max x r))"

text \<open>The format specification \<^verbatim>\<open>{s:<{w}}\<close>: \<open>s\<close> left-aligned, padded with blanks to
  at least \<open>w\<close> characters.\<close>

definition fmt_left :: "string \<Rightarrow> nat \<Rightarrow> string" where
  "fmt_left s w = s @ replicate (w - length s) (CHR '' '')"

section \<open>The reporter: \<^verbatim>\<open>print_courses\<close>\<close>

text \<open>The body of the \<^verbatim>\<open>try\<close> in \<^verbatim>\<open>_parse_pair\<close>: unpacking the split into two names
  raises \<^verbatim>\<open>ValueError\<close> unless there are exactly two pieces.\<close>

definition parse_pair_try :: "nat \<Rightarrow> string \<Rightarrow> error + (int \<times> int)" where
  "parse_pair_try m pair =
     (case str_split (CHR ''/'') pair of
        [current, limit] \<Rightarrow>
          (case py_int m (str_strip current) of
             Inl e \<Rightarrow> Inl e
           | Inr a \<Rightarrow>
               (case py_int m (str_strip limit) of
                  Inl e \<Rightarrow> Inl e
                | Inr b \<Rightarrow> Inr (a, b)))
      | _ \<Rightarrow> Inl ValueError)"

text \<open>\<^verbatim>\<open>_parse_pair\<close>: \<^verbatim>\<open>except Exception: return 0, 0\<close>.\<close>

definition parse_pair :: "nat \<Rightarrow> string \<Rightarrow> error + (int \<times> int)" where
  "parse_pair m pair =
     (case parse_pair_try m pair of
        Inl e \<Rightarrow> Inr (0, 0)
      | Inr p \<Rightarrow> Inr p)"

text \<open>The loop that builds \<^verbatim>\<open>flagged\<close>, with the list built so far as accumulator.\<close>

fun flag_loop :: "nat \<Rightarrow> CourseInfo list \<Rightarrow> CourseInfo list \<Rightarrow> error + CourseInfo list" where
  "flag_loop m [] flagged = Inr flagged"
| "flag_loop m (c # cs) flagged =
     (case parse_pair m (enrolled c) of
        Inl e \<Rightarrow> Inl e
      | Inr (enrolled_current, _) \<Rightarrow>
          (case parse_pair m (wait_list c) of
             Inl e \<Rightarrow> Inl e
           | Inr (wait_current, _) \<Rightarrow>
               if enrolled_current \<le> 10 \<or> wait_current > 0
               then flag_loop m cs (flagged @ [c])
               else flag_loop m cs flagged))"

definition flagged_of :: "nat \<Rightarrow> CourseInfo list \<Rightarrow> error + CourseInfo list" where
  "flagged_of m courses = flag_loop m courses []"

text \<open>Lines 187 to 190: the four column widths.\<close>

definition column_widths :: "CourseInfo list \<Rightarrow> error + (nat \<times> nat \<times> nat \<times> nat)" where
  "column_widths courses =
     (case py_max (map (\<lambda>c. length (title c)) courses) of
        Inl e \<Rightarrow> Inl e
      | Inr t \<Rightarrow>
     (case py_max (map (\<lambda>c. length (class_code c)) courses) of
        Inl e \<Rightarrow> Inl e
      | Inr k \<Rightarrow>
     (case py_max (map (\<lambda>c. length (enrolled c)) courses) of
        Inl e \<Rightarrow> Inl e
      | Inr n \<Rightarrow>
     (case py_max (map (\<lambda>c. length (wait_list c)) courses) of
        Inl e \<Rightarrow> Inl e
      | Inr w \<Rightarrow>
          Inr (max (length ''Title'') t, max (length ''Class'') k,
               max (length ''Enrolled'') n, max (length ''Wait List'') w)))))"

text \<open>The f-string of four left-aligned fields separated by two blanks, which the
  source writes out for the header, each row, the flagged header and each flagged row.\<close>

definition fmt_row :: "nat \<times> nat \<times> nat \<times> nat \<Rightarrow> string \<Rightarrow> string \<Rightarrow> string \<Rightarrow> string \<Rightarrow> string" where
  "fmt_row ws a b c d =
     (case ws of (title_width, class_width, enrolled_width, wait_width) \<Rightarrow>
        fmt_left a title_width @ ''  '' @ fmt_left b class_width @ ''  '' @
        fmt_left c enrolled_width @ ''  '' @ fmt_left d wait_width)"

definition course_row :: "nat \<times> nat \<times> nat \<times> nat \<Rightarrow> CourseInfo \<Rightarrow> string" where
  "course_row ws course =
     fmt_row ws (title course) (class_code course) (enrolled course) (wait_list course)"

definition no_courses_msg :: string where
  "no_courses_msg = ''No courses were found.  Verify the term code and try again.''"

text \<open>The heading of the flagged section. Its character U+2264 lies outside the code
  points 0..255 and stands here as the three bytes of its UTF-8 encoding; no property
  below depends on it.\<close>

definition interest_heading :: string where
  "interest_heading =
     CHR 0x0A # ''Courses of interest ('' @ [CHR 0xE2, CHR 0x89, CHR 0xA4] @
     '' 10 enrolled or students on the wait list):''"

text \<open>\<^verbatim>\<open>print_courses\<close>: the result is the list of the strings printed, one per call
  of \<^verbatim>\<open>print\<close>, or the exception that escapes.\<close>

definition print_courses :: "nat \<Rightarrow> CourseInfo list \<Rightarrow> error + string list" where
  "print_courses m courses =
     (if courses = [] then Inr [no_courses_msg]
      else
        (case column_widths courses of
           Inl e \<Rightarrow> Inl e
         | Inr ws \<Rightarrow>
             (let header = fmt_row ws ''Title'' ''Class'' ''Enrolled'' ''Wait List'';
                  table = [header, replicate (length header) (CHR ''-'')] @
                          map (course_row ws) courses
              in (case flagged_of m courses of
                    Inl e \<Rightarrow> Inl e
                  | Inr flagged \<Rightarrow>
                      if flagged = [] then Inr table
                      else
                        (let flagged_header =
                               fmt_row ws ''Title'' ''Class'' ''Enrolled'' ''Wait List''
                         in Inr (table @
                                 [interest_heading, flagged_header,
                                  replicate (length flagged_header) (CHR ''-'')] @
                                 map (course_row ws) flagged))))))"

section \<open>CSV export: \<^verbatim>\<open>save_csv\<close>\<close>

text \<open>\<^verbatim>\<open>str(n)\<close> for a natural number: its decimal digits, no leading zero.\<close>

fun str_nat :: "nat \<Rightarrow> string" where
  "str_nat n =
     (if n < 10 then [char_of (48 + n)]
      else str_nat (n div 10) @ [char_of (48 + n mod 10)])"

text \<open>
  \<^verbatim>\<open>csv.writer\<close> with its default dialect: delimiter comma, quote character \<open>"\<close>,
  quotes doubled, line terminator CR LF, minimal quoting. A field is quoted when it
  contains the delimiter, the quote character, CR or LF; a row that is one empty field
  is written as two quotes.
\<close>

definition csv_special :: "char \<Rightarrow> bool" where
  "csv_special c =
     (c = CHR '','' \<or> c = CHR 0x22 \<or> c = CHR 0x0D \<or> c = CHR 0x0A)"

definition csv_escape :: "string \<Rightarrow> string" where
  "csv_escape s = concat (map (\<lambda>c. if c = CHR 0x22 then [c, c] else [c]) s)"

definition csv_field :: "string \<Rightarrow> string" where
  "csv_field s =
     (if list_ex csv_special s then [CHR 0x22] @ csv_escape s @ [CHR 0x22] else s)"

fun csv_join :: "string list \<Rightarrow> string" where
  "csv_join [] = []"
| "csv_join [f] = csv_field f"
| "csv_join (f # g # fs) = csv_field f @ [CHR '',''] @ csv_join (g # fs)"

definition writerow :: "string list \<Rightarrow> string" where
  "writerow row =
     (if row = [[]] then [CHR 0x22, CHR 0x22] else csv_join row) @ [CHR 0x0D, CHR 0x0A]"

text \<open>
  The world \<^verbatim>\<open>save_csv\<close> acts on: the files (path to text; the text is written through
  the UTF-8 text layer with \<^verbatim>\<open>newline=""\<close>, so it is stored as written) and the strings
  printed. \<^verbatim>\<open>open(path, "w")\<close> raises \<^verbatim>\<open>OSError\<close> where the path cannot be opened for
  writing, which the parameter \<open>writable\<close> decides.
\<close>

record world =
  files :: "string \<Rightarrow> string option"
  stdout :: "string list"

text \<open>The loop of \<^verbatim>\<open>save_csv\<close>, with the text written so far.\<close>

fun write_rows :: "CourseInfo list \<Rightarrow> string \<Rightarrow> string" where
  "write_rows [] f = f"
| "write_rows (c # cs) f =
     write_rows cs (f @ writerow [title c, class_code c, enrolled c, wait_list c])"

definition save_csv :: "(string \<Rightarrow> bool) \<Rightarrow> CourseInfo list \<Rightarrow> string \<Rightarrow> world \<Rightarrow> error + world" where
  "save_csv writable courses path w =
     (if \<not> writable path then Inl OSError
      else
        (let f = writerow [''Title'', ''Class'', ''Enrolled'', ''Wait List''];
             f' = write_rows courses f
         in Inr (w\<lparr>files := (files w)(path \<mapsto> f'),
                   stdout := stdout w @
                     [''Saved '' @ str_nat (length courses) @ '' courses to '' @ path]\<rparr>)))"

text \<open>
  Modelled from the spec: the reader that reads the exported file back is not part of
  the repository; the spec speaks of reading the file back under the standard
  field-quoting convention. The model is the reader of Python's \<^verbatim>\<open>csv\<close> module with
  the same default dialect, on a file opened with \<^verbatim>\<open>newline=""\<close>: the text is cut into
  lines after LF, after CR LF and after a CR that no LF follows, the parser is fed each
  character and an end-of-line mark (\<open>None\<close>) after each line, and a record is complete
  when the parser is back at the start of a record after a line. The reader's
  configurable limit on the length of a field is not modelled.
\<close>

definition eol_after :: "char \<Rightarrow> char option \<Rightarrow> bool" where
  "eol_after c nxt =
     (c = CHR 0x0A \<or> nxt = None \<or> (c = CHR 0x0D \<and> nxt \<noteq> Some (CHR 0x0A)))"

text \<open>\<open>mark_eols la s\<close>: the characters of \<open>s\<close> with the end-of-line marks, where \<open>la\<close> is
  the character that follows \<open>s\<close> in the file (\<open>None\<close> at the end of the file).\<close>

fun mark_eols :: "char option \<Rightarrow> string \<Rightarrow> char option list" where
  "mark_eols la [] = []"
| "mark_eols la (c # cs) =
     Some c #
     (if eol_after c (case cs of [] \<Rightarrow> la | d # _ \<Rightarrow> Some d) then [None] else []) @
     mark_eols la cs"

datatype rstate =
  START_RECORD | START_FIELD | IN_FIELD | IN_QUOTED_FIELD | QUOTE_IN_QUOTED_FIELD | EAT_CRNL

text \<open>The parser's state: its state, the fields saved so far, the field being read.\<close>

type_synonym reader = "rstate \<times> string list \<times> string"

definition is_nl :: "char option \<Rightarrow> bool" where
  "is_nl c = (c = Some (CHR 0x0A) \<or> c = Some (CHR 0x0D) \<or> c = None)"

definition after_nl :: "char option \<Rightarrow> rstate" where
  "after_nl c = (if c = None then START_RECORD else EAT_CRNL)"

fun start_field :: "string list \<Rightarrow> string \<Rightarrow> char option \<Rightarrow> error + reader" where
  "start_field fs fld c =
     (if is_nl c then Inr (after_nl c, fs @ [fld], [])
      else if c = Some (CHR 0x22) then Inr (IN_QUOTED_FIELD, fs, fld)
      else if c = Some (CHR '','') then Inr (START_FIELD, fs @ [fld], [])
      else Inr (IN_FIELD, fs, fld @ [the c]))"

fun process_char :: "reader \<Rightarrow> char option \<Rightarrow> error + reader" where
  "process_char (START_RECORD, fs, fld) c =
     (if c = None then Inr (START_RECORD, fs, fld)
      else if is_nl c then Inr (EAT_CRNL, fs, fld)
      else start_field fs fld c)"
| "process_char (START_FIELD, fs, fld) c = start_field fs fld c"
| "process_char (IN_FIELD, fs, fld) c =
     (if is_nl c then Inr (after_nl c, fs @ [fld], [])
      else if c = Some (CHR '','') then Inr (START_FIELD, fs @ [fld], [])
      else Inr (IN_FIELD, fs, fld @ [the c]))"
| "process_char (IN_QUOTED_FIELD, fs, fld) c =
     (if c = None then Inr (IN_QUOTED_FIELD, fs, fld)
      else if c = Some (CHR 0x22) then Inr (QUOTE_IN_QUOTED_FIELD, fs, fld)
      else Inr (IN_QUOTED_FIELD, fs, fld @ [the c]))"
| "process_char (QUOTE_IN_QUOTED_FIELD, fs, fld) c =
     (if c = Some (CHR 0x22) then Inr (IN_QUOTED_FIELD, fs, fld @ [CHR 0x22])
      else if c = Some (CHR '','') then Inr (START_FIELD, fs @ [fld], [])
      else if is_nl c then Inr (after_nl c, fs @ [fld], [])
      else Inr (IN_FIELD, fs, fld @ [the c]))"
| "process_char (EAT_CRNL, fs, fld) c =
     (if c = None then Inr (START_RECORD, fs, fld)
      else if is_nl c then Inr (EAT_CRNL, fs, fld)
      else Inl CsvError)"

definition reader_reset :: reader where
  "reader_reset = (START_RECORD, [], [])"

fun read_stream :: "reader \<Rightarrow> string list list \<Rightarrow> char option list \<Rightarrow> error + string list list" where
  "read_stream r acc [] =
     (case r of (st, fs, fld) \<Rightarrow>
        if fld \<noteq> [] \<or> st = IN_QUOTED_FIELD then Inr (acc @ [fs @ [fld]]) else Inr acc)"
| "read_stream r acc (c # cs) =
     (case process_char r c of
        Inl e \<Rightarrow> Inl e
      | Inr r' \<Rightarrow>
          if c = None \<and> fst r' = START_RECORD
          then read_stream reader_reset (acc @ [fst (snd r')]) cs
          else read_stream r' acc cs)"

definition csv_read :: "string \<Rightarrow> error + string list list" where
  "csv_read text = read_stream reader_reset [] (mark_eols None text)"

section \<open>The extractor: \<^verbatim>\<open>collect_courses\<close>\<close>

text \<open>
  The browser is outside the program. A result container is what reading it gives: for
  a CSS selector, the text of the first element found, or the exception that
  \<^verbatim>\<open>find_element\<close> or \<^verbatim>\<open>.text\<close> raises.
\<close>

type_synonym box = "string \<Rightarrow> error + string"

text \<open>The body of the \<^verbatim>\<open>try\<close> in the loop over the containers.\<close>

definition read_box :: "box \<Rightarrow> error + CourseInfo" where
  "read_box b =
     (case b ''div.courseName'' of
        Inl e \<Rightarrow> Inl e
      | Inr t \<Rightarrow>
     (case b ''#classID .dataValue'' of
        Inl e \<Rightarrow> Inl e
      | Inr k \<Rightarrow>
     (case b ''#enrollID .dataValue'' of
        Inl e \<Rightarrow> Inl e
      | Inr n \<Rightarrow>
     (case b ''#waitID .dataValue'' of
        Inl e \<Rightarrow> Inl e
      | Inr w \<Rightarrow>
          Inr \<lparr>title = str_strip t, class_code = str_strip k,
               enrolled = str_strip n, wait_list = str_strip w\<rparr>))))"

text \<open>The loop over the containers: \<^verbatim>\<open>except Exception: continue\<close>.\<close>

fun boxes_loop :: "box list \<Rightarrow> CourseInfo list \<Rightarrow> CourseInfo list" where
  "boxes_loop [] courses = courses"
| "boxes_loop (b # bs) courses =
     (case read_box b of
        Inl e \<Rightarrow> boxes_loop bs courses
      | Inr c \<Rightarrow> boxes_loop bs (courses @ [c]))"

text \<open>
  The steps of \<^verbatim>\<open>collect_courses\<close> that can raise, in the order of the source:
  \<^verbatim>\<open>driver.get(url)\<close>, the wait for the subjects list, \<^verbatim>\<open>Select(...)\<close>,
  \<^verbatim>\<open>deselect_all\<close>, \<^verbatim>\<open>select_by_value("CST")\<close>, \<^verbatim>\<open>find_element\<close> for the button, its
  \<^verbatim>\<open>click\<close>, the wait for the results, \<^verbatim>\<open>execute_script\<close>, \<^verbatim>\<open>time.sleep(1)\<close> and
  \<^verbatim>\<open>find_elements\<close>; and \<^verbatim>\<open>driver.quit()\<close> of the \<^verbatim>\<open>finally\<close> clause. What each
  step does is the environment's: \<open>fails\<close> gives the exception a step raises, if any,
  \<open>launch\<close> the exception of \<^verbatim>\<open>get_driver\<close>, if any, and \<open>course_boxes\<close> the containers
  that \<^verbatim>\<open>find_elements\<close> returns.
\<close>

datatype call =
  Get string | WaitSubjects | NewSelect | DeselectAll | SelectByValue string
  | FindButton | Click | WaitResults | ExecuteScript | Sleep | FindElements | Quit

record browser =
  launch :: "bool \<Rightarrow> error option"
  fails :: "call \<Rightarrow> error option"
  course_boxes :: "box list"

text \<open>Steps in sequence, stopping at the first that raises; the trace records each step
  taken.\<close>

fun run_calls :: "(call \<Rightarrow> error option) \<Rightarrow> call list \<Rightarrow> call list \<Rightarrow> error option \<times> call list" where
  "run_calls f [] tr = (None, tr)"
| "run_calls f (c # cs) tr =
     (case f c of
        Some e \<Rightarrow> (Some e, tr @ [c])
      | None \<Rightarrow> run_calls f cs (tr @ [c]))"

definition navigation :: "string \<Rightarrow> call list" where
  "navigation term_code =
     [Get (''https://banner.roosevelt.edu/ssbprod/bwskzenr.P_CourseFinder?TERM='' @ term_code),
      WaitSubjects, NewSelect, DeselectAll, SelectByValue ''CST'', FindButton, Click,
      WaitResults, ExecuteScript, Sleep, FindElements]"

text \<open>The body of the outer \<^verbatim>\<open>try\<close>.\<close>

definition try_body :: "browser \<Rightarrow> string \<Rightarrow> call list \<Rightarrow> (error + CourseInfo list) \<times> call list" where
  "try_body env term_code tr =
     (case run_calls (fails env) (navigation term_code) tr of
        (Some e, tr') \<Rightarrow> (Inl e, tr')
      | (None, tr') \<Rightarrow> (Inr (boxes_loop (course_boxes env) []), tr'))"

text \<open>
  \<^verbatim>\<open>collect_courses\<close>: the result or the exception that escapes, and the trace of the
  steps taken with the session (\<open>None\<close> when no session was created). The \<^verbatim>\<open>finally\<close>
  clause runs after the body however it ends; an exception of \<^verbatim>\<open>driver.quit()\<close>
  replaces the outcome of the body.
\<close>

definition collect_courses :: "browser \<Rightarrow> string \<Rightarrow> bool \<Rightarrow> (error + CourseInfo list) \<times> call list option" where
  "collect_courses env term_code headless =
     (case launch env headless of
        Some e \<Rightarrow> (Inl e, None)
      | None \<Rightarrow>
          (case try_body env term_code [] of
             (r, tr) \<Rightarrow>
               (case run_calls (fails env) [Quit] tr of
                  (Some e, tr') \<Rightarrow> (Inl e, Some tr')
                | (None, tr') \<Rightarrow> (r, Some tr'))))"

section \<open>The properties in the words of the specification\<close>

text \<open>The flagging predicate: \<open>parse(enrolled).current \<le> 10\<close> or
  \<open>parse(waitList).current > 0\<close>.\<close>

definition is_flagged :: "nat \<Rightarrow> CourseInfo \<Rightarrow> bool" where
  "is_flagged m c =
     (case (parse_pair m (enrolled c), parse_pair m (wait_list c)) of
        (Inr (enrolled_current, _), Inr (wait_current, _)) \<Rightarrow>
          enrolled_current \<le> 10 \<or> wait_current > 0
      | _ \<Rightarrow> False)"

text \<open>\<^verbatim>\<open>str(i)\<close> for an integer: the text of the shape that \<open>a / b\<close> is made of.\<close>

definition str_int :: "int \<Rightarrow> string" where
  "str_int i = (if i < 0 then CHR ''-'' # str_nat (nat (- i)) else str_nat (nat i))"

text \<open>A column's width: the maximum of the header label's length and of the length of
  that field over all records.\<close>

definition spec_width :: "string \<Rightarrow> (CourseInfo \<Rightarrow> string) \<Rightarrow> CourseInfo list \<Rightarrow> nat" where
  "spec_width label fld courses = Max (insert (length label) ((\<lambda>c. length (fld c)) ` set courses))"

definition spec_widths :: "CourseInfo list \<Rightarrow> nat \<times> nat \<times> nat \<times> nat" where
  "spec_widths courses =
     (spec_width ''Title'' title courses, spec_width ''Class'' class_code courses,
      spec_width ''Enrolled'' enrolled courses, spec_width ''Wait List'' wait_list courses)"

text \<open>A table as printed: header, rule, one row per record.\<close>

definition spec_table :: "nat \<times> nat \<times> nat \<times> nat \<Rightarrow> CourseInfo list \<Rightarrow> string list" where
  "spec_table ws courses =
     [fmt_row ws ''Title'' ''Class'' ''Enrolled'' ''Wait List'',
      replicate (length (fmt_row ws ''Title'' ''Class'' ''Enrolled'' ''Wait List'')) (CHR ''-'')] @
     map (course_row ws) courses"

text \<open>The rows of a CSV file of the records: the header row, then the four fields of
  each record.\<close>

definition csv_header :: "string list" where
  "csv_header = [''Title'', ''Class'', ''Enrolled'', ''Wait List'']"

definition course_fields :: "CourseInfo \<Rightarrow> string list" where
  "course_fields c = [title c, class_code c, enrolled c, wait_list c]"

text \<open>A container all of whose four sub-fields can be read.\<close>

definition readable :: "error + string \<Rightarrow> bool" where
  "readable r = (case r of Inl e \<Rightarrow> False | Inr t \<Rightarrow> True)"

definition box_complete :: "box \<Rightarrow> bool" where
  "box_complete b =
     (readable (b ''div.courseName'') \<and> readable (b ''#classID .dataValue'') \<and>
      readable (b ''#enrollID .dataValue'') \<and> readable (b ''#waitID .dataValue''))"

text \<open>The record of a container: its four texts, trimmed.\<close>

definition box_record :: "box \<Rightarrow> CourseInfo" where
  "box_record b =
     \<lparr>title = str_strip (projr (b ''div.courseName'')),
      class_code = str_strip (projr (b ''#classID .dataValue'')),
      enrolled = str_strip (projr (b ''#enrollID .dataValue'')),
      wait_list = str_strip (projr (b ''#waitID .dataValue''))\<rparr>"

text \<open>An integer whose decimal text the interpreter's digit limit \<open>m\<close> lets through.\<close>

definition int_within_limit :: "nat \<Rightarrow> int \<Rightarrow> bool" where
  "int_within_limit m i =
     (\<not> (640 < length (str_nat (nat \<bar>i\<bar>)) \<and> 0 < m \<and> m < length (str_nat (nat \<bar>i\<bar>))))"

text \<open>The two records of the scenario of the specification.\<close>

definition scenario_first :: CourseInfo where
  "scenario_first =
     \<lparr>title = ''Intro to CS'', class_code = ''CST 150-01'',
      enrolled = ''9 / 25'', wait_list = ''0 / 0''\<rparr>"

definition scenario_second :: CourseInfo where
  "scenario_second =
     \<lparr>title = ''Data Structures'', class_code = ''CST 250-01'',
      enrolled = ''25 / 25'', wait_list = ''3 / 5''\<rparr>"

text \<open>A record whose two figures both fail to parse.\<close>

definition unparseable_course :: CourseInfo where
  "unparseable_course =
     \<lparr>title = ''Seminar'', class_code = ''CST 399-01'',
      enrolled = ''bad'', wait_list = ''bad''\<rparr>"

text \<open>A record that is not flagged, with the longest title.\<close>

definition quiet_course :: CourseInfo where
  "quiet_course =
     \<lparr>title = ''Operating Systems'', class_code = ''CST 333-01'',
      enrolled = ''20 / 25'', wait_list = ''0 / 5''\<rparr>"

text \<open>Two containers: one whose four sub-fields read as the same text, one whose
  wait-list sub-field is missing. A browser in which every call succeeds, and one in
  which the wait for the results times out.\<close>

definition full_box :: "string \<Rightarrow> box" where
  "full_box t = (\<lambda>sel. Inr t)"

definition box_without_wait_list :: "string \<Rightarrow> box" where
  "box_without_wait_list t =
     (\<lambda>sel. if sel = ''#waitID .dataValue'' then Inl WebDriverException else Inr t)"

definition steady_browser :: "box list \<Rightarrow> browser" where
  "steady_browser bs = \<lparr>launch = (\<lambda>h. None), fails = (\<lambda>c. None), course_boxes = bs\<rparr>"

definition stalling_browser :: browser where
  "stalling_browser =
     \<lparr>launch = (\<lambda>h. None),
      fails = (\<lambda>c. if c = WaitResults then Some WebDriverException else None),
      course_boxes = []\<rparr>"

section \<open>Facts about the model\<close>

declare str_nat.simps [simp del]

lemmas parse_eval =
  parse_pair_def parse_pair_try_def str_strip_def str_isspace_def py_int_def int_sign_def
  int_isspace_def is_digit_def digit_val_def digits_value_def

lemma str_split_none: "sep \<notin> set v \<Longrightarrow> str_split sep v = [v]"
  by (induction v) auto

lemma str_split_single:
  "sep \<notin> set u \<Longrightarrow> sep \<notin> set v \<Longrightarrow> str_split sep (u @ sep # v) = [u, v]"
  by (induction u) (auto simp: str_split_none)

lemma dropWhile_all: "list_all P w \<Longrightarrow> dropWhile P (w @ a) = dropWhile P a"
  by (induction w) auto

lemma str_strip_ws:
  assumes "list_all str_isspace w1" "list_all str_isspace w2"
  shows "str_strip (w1 @ a @ w2) = str_strip a"
proof -
  have 1: "dropWhile str_isspace (w1 @ a @ w2) = dropWhile str_isspace (a @ w2)"
    using assms(1) by (rule dropWhile_all)
  have r: "list_all str_isspace (rev w2)" using assms(2) by (simp add: list_all_iff)
  show ?thesis
  proof (cases "list_all str_isspace a")
    case True
    then have "list_all str_isspace (a @ w2)"
      using assms(2) by simp
    then have A: "dropWhile str_isspace (a @ w2) = []"
      unfolding list_all_iff dropWhile_eq_Nil_conv .
    have B: "dropWhile str_isspace a = []"
      using True unfolding list_all_iff dropWhile_eq_Nil_conv .
    show ?thesis unfolding str_strip_def 1 A B by simp
  next
    case False
    then have "dropWhile str_isspace (a @ w2) = dropWhile str_isspace a @ w2"
      by (auto simp: list_all_iff dropWhile_append1)
    then show ?thesis
      using r by (simp add: str_strip_def 1 dropWhile_all)
  qed
qed

lemma str_strip_id:
  assumes "a \<noteq> []" "\<not> str_isspace (hd a)" "\<not> str_isspace (last a)"
  shows "str_strip a = a"
proof -
  have 1: "dropWhile str_isspace a = a"
    using assms(1,2) by (cases a) auto
  have 2: "dropWhile str_isspace (rev a) = rev a"
    using assms(1,3) by (cases "rev a") (auto simp: last_rev[symmetric] hd_rev)
  show ?thesis by (simp add: str_strip_def 1 2)
qed

lemma digit_char: "d < 10 \<Longrightarrow> is_digit (char_of (48 + d)) \<and> digit_val (char_of (48 + d)) = d"
  by (simp add: is_digit_def digit_val_def)

lemma str_nat_digits: "list_all is_digit (str_nat n) \<and> str_nat n \<noteq> []"
proof (induction n rule: str_nat.induct)
  case (1 n)
  show ?case
  proof (cases "n < 10")
    case True
    then show ?thesis by (subst (1 2) str_nat.simps) (simp add: digit_char)
  next
    case False
    with 1 show ?thesis by (subst (1 2) str_nat.simps) (simp add: digit_char)
  qed
qed

lemma digits_value_snoc: "digits_value (ds @ [d]) = digits_value ds * 10 + d"
  by (simp add: digits_value_def)

lemma str_nat_value: "digits_value (map digit_val (str_nat n)) = n"
proof (induction n rule: str_nat.induct)
  case (1 n)
  show ?case
  proof (cases "n < 10")
    case True
    then show ?thesis by (subst str_nat.simps) (simp add: digit_char digits_value_def)
  next
    case False
    with 1 show ?thesis
      by (subst str_nat.simps) (simp add: digit_char digits_value_snoc)
  qed
qed

lemma digit_not_special:
  "is_digit c \<Longrightarrow> c \<noteq> CHR ''_'' \<and> c \<noteq> CHR ''/'' \<and> c \<noteq> CHR ''+'' \<and> c \<noteq> CHR ''-'' \<and> \<not> str_isspace c \<and> \<not> int_isspace c"
  by (auto simp: is_digit_def str_isspace_def int_isspace_def Let_def)

lemma int_digits_all:
  "list_all is_digit ds \<Longrightarrow> ds \<noteq> [] \<or> prev \<noteq> CHR ''_'' \<Longrightarrow>
   int_digits ds acc prev = Some (acc @ map digit_val ds, [])"
proof (induction ds arbitrary: acc prev)
  case Nil
  then show ?case by simp
next
  case (Cons c ds)
  then have c: "is_digit c" "c \<noteq> CHR ''_''" using digit_not_special by auto
  have "int_digits ds (acc @ [digit_val c]) c = Some ((acc @ [digit_val c]) @ map digit_val ds, [])"
    using Cons.prems(1) c(2) by (intro Cons.IH) auto
  then show ?case using c by simp
qed

lemma py_int_digits:
  assumes "list_all is_digit ds" "ds \<noteq> []"
    and "\<not> (640 < length ds \<and> 0 < m \<and> m < length ds)"
  shows "py_int m ds = Inr (int (digits_value (map digit_val ds)))"
    and "py_int m (CHR ''-'' # ds) = Inr (- int (digits_value (map digit_val ds)))"
proof -
  obtain c r where ds: "ds = c # r" using assms(2) by (cases ds) auto
  have c: "is_digit c" using assms(1) ds by simp
  note n = digit_not_special[OF c]
  have d: "int_digits ds [] (CHR 0x00) = Some (map digit_val ds, [])"
    using int_digits_all[OF assms(1), of "CHR 0x00" "[]"] by simp
  show "py_int m ds = Inr (int (digits_value (map digit_val ds)))"
    using n assms(3) d unfolding ds py_int_def int_sign_def
    by (simp del: int_digits.simps)
  show "py_int m (CHR ''-'' # ds) = Inr (- int (digits_value (map digit_val ds)))"
    using n assms(3) d unfolding ds py_int_def int_sign_def int_isspace_def
    by (simp del: int_digits.simps)
qed

lemma py_int_str_int:
  assumes "\<not> (640 < length (str_nat (nat \<bar>i\<bar>)) \<and> 0 < m \<and> m < length (str_nat (nat \<bar>i\<bar>)))"
  shows "py_int m (str_int i) = Inr i"
proof (cases "i < 0")
  case True
  then have "nat (- i) = nat \<bar>i\<bar>" by simp
  then show ?thesis
    using py_int_digits(2)[of "str_nat (nat \<bar>i\<bar>)" m] assms str_nat_digits[of "nat \<bar>i\<bar>"] True
    by (simp add: str_int_def str_nat_value)
next
  case False
  then have "nat i = nat \<bar>i\<bar>" by simp
  then show ?thesis
    using py_int_digits(1)[of "str_nat (nat \<bar>i\<bar>)" m] assms str_nat_digits[of "nat \<bar>i\<bar>"] False
    by (simp add: str_int_def str_nat_value)
qed

lemma str_int_ends:
  "str_int i \<noteq> [] \<and> \<not> str_isspace (hd (str_int i)) \<and> \<not> str_isspace (last (str_int i))
   \<and> CHR ''/'' \<notin> set (str_int i)"
proof -
  let ?d = "str_nat (nat (- i))" and ?e = "str_nat (nat i)"
  have a: "list_all is_digit ?d" "?d \<noteq> []" "list_all is_digit ?e" "?e \<noteq> []"
    using str_nat_digits by auto
  have h: "\<And>ds. list_all is_digit ds \<Longrightarrow> ds \<noteq> [] \<Longrightarrow>
     \<not> str_isspace (hd ds) \<and> \<not> str_isspace (last ds) \<and> CHR ''/'' \<notin> set ds"
    using digit_not_special by (auto simp: list_all_iff)
  show ?thesis
    using h[OF a(1,2)] h[OF a(3,4)] a by (auto simp: str_int_def str_isspace_def)
qed

lemma str_strip_str_int:
  "list_all str_isspace w1 \<Longrightarrow> list_all str_isspace w2 \<Longrightarrow> str_strip (w1 @ str_int i @ w2) = str_int i"
  using str_int_ends[of i] by (simp add: str_strip_ws str_strip_id)

lemma space_not_slash: "list_all str_isspace w \<Longrightarrow> CHR ''/'' \<notin> set w"
  by (auto simp: list_all_iff str_isspace_def)

lemma parse_pair_split:
  assumes "CHR ''/'' \<notin> set a" "CHR ''/'' \<notin> set b"
  shows "parse_pair m (a @ ''/'' @ b) =
     (case (py_int m (str_strip a), py_int m (str_strip b)) of
        (Inr x, Inr y) \<Rightarrow> Inr (x, y)
      | _ \<Rightarrow> Inr (0, 0))"
  using str_split_single[OF assms]
  by (simp add: parse_pair_def parse_pair_try_def split: sum.splits)

lemma parse_pair_shape:
  assumes "list_all str_isspace w1" "list_all str_isspace w2"
    "list_all str_isspace w3" "list_all str_isspace w4"
    and "\<not> (640 < length (str_nat (nat \<bar>a\<bar>)) \<and> 0 < m \<and> m < length (str_nat (nat \<bar>a\<bar>)))"
    and "\<not> (640 < length (str_nat (nat \<bar>b\<bar>)) \<and> 0 < m \<and> m < length (str_nat (nat \<bar>b\<bar>)))"
  shows "parse_pair m (w1 @ str_int a @ w2 @ ''/'' @ w3 @ str_int b @ w4) = Inr (a, b)"
proof -
  have 1: "CHR ''/'' \<notin> set (w1 @ str_int a @ w2)" "CHR ''/'' \<notin> set (w3 @ str_int b @ w4)"
    using assms(1-4) space_not_slash str_int_ends by auto
  have "parse_pair m ((w1 @ str_int a @ w2) @ ''/'' @ (w3 @ str_int b @ w4)) = Inr (a, b)"
    unfolding parse_pair_split[OF 1]
    using assms by (simp add: str_strip_str_int py_int_str_int)
  then show ?thesis by simp
qed

lemma parse_pair_total: "\<exists>a b. parse_pair m s = Inr (a, b)"
  by (cases "parse_pair_try m s") (auto simp: parse_pair_def)

lemma flag_loop_filter: "flag_loop m cs acc = Inr (acc @ filter (is_flagged m) cs)"
proof (induction cs arbitrary: acc)
  case Nil
  show ?case by simp
next
  case (Cons c cs)
  obtain a b where e: "parse_pair m (enrolled c) = Inr (a, b)"
    using parse_pair_total by blast
  obtain x y where w: "parse_pair m (wait_list c) = Inr (x, y)"
    using parse_pair_total by blast
  show ?case
    by (simp add: e w Cons.IH is_flagged_def)
qed

lemma flagged_of_filter: "flagged_of m cs = Inr (filter (is_flagged m) cs)"
  by (simp add: flagged_of_def flag_loop_filter)

lemma length_str_split: "length (str_split sep s) = Suc (count_list s sep)"
  by (induction s) (auto split: list.splits)

lemma parse_pair_not_two:
  assumes "count_list s (CHR ''/'') \<noteq> 1"
  shows "parse_pair m s = Inr (0, 0)"
proof -
  have "length (str_split (CHR ''/'') s) \<noteq> 2"
    using assms by (simp add: length_str_split)
  then have "parse_pair_try m s = Inl ValueError"
    by (auto simp: parse_pair_try_def split: list.splits)
  then show ?thesis by (simp add: parse_pair_def)
qed

lemma parse_example1: "parse_pair m ''9 / 25'' = Inr (9, 25)"
  by (simp add: parse_eval)

lemma parse_example2: "parse_pair m ''bad'' = Inr (0, 0)"
  by (simp add: parse_eval)

lemma parse_example3: "parse_pair m ''0/46'' = Inr (0, 46)"
  by (simp add: parse_eval)

lemma parse_example4: "parse_pair m ''1/2/3'' = Inr (0, 0)"
  by (simp add: parse_eval)

lemma parse_example5: "parse_pair m '''' = Inr (0, 0)"
  by (simp add: parse_eval)

lemma parse_example6: "parse_pair m ''-3 / 25'' = Inr (-3, 25)"
  by (simp add: parse_eval)

lemma parse_example7: "parse_pair m ''25 / 25'' = Inr (25, 25)"
  by (simp add: parse_eval)

lemma parse_example8: "parse_pair m ''3 / 5'' = Inr (3, 5)"
  by (simp add: parse_eval)

lemma parse_example9: "parse_pair m ''0 / 0'' = Inr (0, 0)"
  by (simp add: parse_eval)

lemma foldl_max_Max: "foldl max (x::nat) r = Max (set (x # r))"
proof -
  have c: "(\<lambda>(a::nat) s. max s a) = max" by (intro ext) (simp add: max.commute)
  have "foldl max x r = fold max r x" by (simp add: foldl_conv_fold c)
  also have "\<dots> = Max (set (x # r))" by (rule Max.set_eq_fold [symmetric])
  finally show ?thesis .
qed

lemma py_max_Max: "xs \<noteq> [] \<Longrightarrow> py_max xs = Inr (Max (set xs))"
  by (cases xs) (simp_all add: py_max_def foldl_max_Max del: set_simps Max_insert)

lemma spec_width_max:
  "cs \<noteq> [] \<Longrightarrow> spec_width label fld cs = max (length label) (Max (set (map (\<lambda>c. length (fld c)) cs)))"
  by (simp add: spec_width_def)

lemma column_widths_spec: "cs \<noteq> [] \<Longrightarrow> column_widths cs = Inr (spec_widths cs)"
  by (simp add: column_widths_def py_max_Max spec_widths_def spec_width_max)

lemma print_courses_table:
  assumes "cs \<noteq> []"
  shows "print_courses m cs =
     Inr (spec_table (spec_widths cs) cs @
          (if filter (is_flagged m) cs = [] then []
           else interest_heading # spec_table (spec_widths cs) (filter (is_flagged m) cs)))"
  using assms
  by (simp add: print_courses_def column_widths_spec flagged_of_filter spec_table_def Let_def)

lemma spec_width_bounds:
  "length label \<le> spec_width label fld cs"
  "c \<in> set cs \<Longrightarrow> length (fld c) \<le> spec_width label fld cs"
  by (simp_all add: spec_width_def)

lemma length_fmt_left: "length s \<le> w \<Longrightarrow> length (fmt_left s w) = w"
  by (simp add: fmt_left_def)

lemma read_box_complete: "box_complete b \<Longrightarrow> read_box b = Inr (box_record b)"
  by (auto simp: box_complete_def readable_def read_box_def box_record_def split: sum.splits)

lemma read_box_incomplete: "\<not> box_complete b \<Longrightarrow> \<exists>e. read_box b = Inl e"
  by (auto simp: box_complete_def readable_def read_box_def split: sum.splits)

lemma boxes_loop_filter:
  "boxes_loop bs acc = acc @ map box_record (filter box_complete bs)"
proof (induction bs arbitrary: acc)
  case Nil
  show ?case by simp
next
  case (Cons b bs)
  show ?case
  proof (cases "box_complete b")
    case True
    then show ?thesis by (simp add: read_box_complete Cons.IH)
  next
    case False
    then obtain e where "read_box b = Inl e" using read_box_incomplete by blast
    then show ?thesis using False by (simp add: Cons.IH)
  qed
qed

lemma run_calls_ok:
  "(\<forall>c \<in> set cs. f c = None) \<Longrightarrow> run_calls f cs tr = (None, tr @ cs)"
  by (induction cs arbitrary: tr) auto

lemma run_calls_trace:
  "run_calls f cs tr = (r, tr') \<Longrightarrow> \<exists>p. tr' = tr @ p \<and> set p \<subseteq> set cs"
proof (induction cs arbitrary: tr)
  case Nil
  then show ?case by simp
next
  case (Cons c cs)
  show ?case
  proof (cases "f c")
    case None
    with Cons.prems have "run_calls f cs (tr @ [c]) = (r, tr')" by simp
    from Cons.IH[OF this] obtain p where "tr' = (tr @ [c]) @ p" "set p \<subseteq> set cs" by blast
    then have "tr' = tr @ (c # p) \<and> set (c # p) \<subseteq> set (c # cs)" by auto
    then show ?thesis by blast
  next
    case (Some e)
    with Cons.prems have "tr' = tr @ [c]" by simp
    then show ?thesis by auto
  qed
qed

lemma quit_not_navigation: "Quit \<notin> set (navigation t)"
  by (simp add: navigation_def)

lemma run_quit: "\<exists>q. run_calls f [Quit] tr = (q, tr @ [Quit])"
  by (cases "f Quit") auto

lemma collect_courses_quits:
  assumes "launch env headless = None"
  shows "\<exists>r tr. collect_courses env t headless = (r, Some (tr @ [Quit])) \<and> Quit \<notin> set tr"
proof -
  obtain r tr where b: "try_body env t [] = (r, tr)" by (cases "try_body env t []")
  obtain q tr0 where n: "run_calls (fails env) (navigation t) [] = (q, tr0)"
    by (cases "run_calls (fails env) (navigation t) []")
  have "tr = tr0" using b n by (auto simp: try_body_def split: option.splits)
  moreover from run_calls_trace[OF n] have "set tr0 \<subseteq> set (navigation t)" by auto
  ultimately have nq: "Quit \<notin> set tr" using quit_not_navigation by blast
  obtain q' where "run_calls (fails env) [Quit] tr = (q', tr @ [Quit])" using run_quit by blast
  then show ?thesis using assms b nq
    by (auto simp: collect_courses_def split: option.splits)
qed

lemma parse_example10: "parse_pair m ''20 / 25'' = Inr (20, 25)"
  by (simp add: parse_eval)

lemma parse_example11: "parse_pair m ''0 / 5'' = Inr (0, 5)"
  by (simp add: parse_eval)

lemma is_flagged_examples:
  "is_flagged m scenario_first" "is_flagged m scenario_second" "\<not> is_flagged m quiet_course"
  by (simp_all add: is_flagged_def scenario_first_def scenario_second_def quiet_course_def
      parse_example1 parse_example7 parse_example8 parse_example9 parse_example10 parse_example11)

lemma mark_eols_append:
  "mark_eols la (xs @ ys) = mark_eols (case ys of [] \<Rightarrow> la | d # _ \<Rightarrow> Some d) xs @ mark_eols la ys"
proof (induction xs)
  case Nil
  show ?case by simp
next
  case (Cons c xs)
  show ?case
  proof (cases xs)
    case Nil
    then show ?thesis by (cases ys) simp_all
  next
    case (Cons d r)
    with Cons.IH show ?thesis by simp
  qed
qed

lemma mark_eols_crlf: "mark_eols la [CHR 0x0D, CHR 0x0A] = [Some (CHR 0x0D), Some (CHR 0x0A), None]"
  by (simp add: eol_after_def)

lemma mark_eols_Cons:
  "mark_eols (Some d) (c # cs) =
     Some c # (if eol_after c (Some (hd (cs @ [d]))) then [None] else []) @ mark_eols (Some d) cs"
  by (cases cs) simp_all

lemma eol_after_plain: "\<not> csv_special c \<Longrightarrow> \<not> eol_after c (Some x)"
  by (simp add: eol_after_def csv_special_def)

lemma eol_after_quote: "\<not> eol_after (CHR 0x22) (Some x)"
  by (simp add: eol_after_def)

lemma mark_eols_plain:
  "\<not> list_ex csv_special f \<Longrightarrow> mark_eols (Some d) f = map Some f"
proof (induction f)
  case Nil
  show ?case by simp
next
  case (Cons c f)
  then show ?case
    unfolding mark_eols_Cons by (simp add: eol_after_plain)
qed

lemma in_field_char:
  "\<not> csv_special c \<Longrightarrow>
   read_stream (IN_FIELD, fs, fld) acc (Some c # rest) = read_stream (IN_FIELD, fs, fld @ [c]) acc rest"
  by (simp add: csv_special_def is_nl_def)

lemma read_in_field:
  "\<not> list_ex csv_special f \<Longrightarrow>
   read_stream (IN_FIELD, fs, fld) acc (map Some f @ rest) = read_stream (IN_FIELD, fs, fld @ f) acc rest"
proof (induction f arbitrary: fld)
  case Nil
  show ?case by simp
next
  case (Cons c f)
  then have "\<not> csv_special c" "\<not> list_ex csv_special f" by simp_all
  then show ?case
    using Cons.IH[of "fld @ [c]"] by (simp add: in_field_char del: read_stream.simps)
qed

lemma quoted_char:
  "c \<noteq> CHR 0x22 \<Longrightarrow>
   read_stream (IN_QUOTED_FIELD, fs, fld) acc (Some c # rest) =
   read_stream (IN_QUOTED_FIELD, fs, fld @ [c]) acc rest"
  by simp

lemma quoted_eol:
  "read_stream (IN_QUOTED_FIELD, fs, fld) acc (None # rest) =
   read_stream (IN_QUOTED_FIELD, fs, fld) acc rest"
  by simp

lemma quoted_quote:
  "read_stream (IN_QUOTED_FIELD, fs, fld) acc (Some (CHR 0x22) # Some (CHR 0x22) # rest) =
   read_stream (IN_QUOTED_FIELD, fs, fld @ [CHR 0x22]) acc rest"
  by simp

lemma read_quoted:
  "read_stream (IN_QUOTED_FIELD, fs, fld) acc (mark_eols (Some d) (csv_escape f) @ rest) =
   read_stream (IN_QUOTED_FIELD, fs, fld @ f) acc rest"
proof (induction f arbitrary: fld)
  case Nil
  show ?case by (simp add: csv_escape_def)
next
  case (Cons c f)
  show ?case
  proof (cases "c = CHR 0x22")
    case True
    have e: "csv_escape (c # f) = CHR 0x22 # CHR 0x22 # csv_escape f"
      using True by (simp add: csv_escape_def)
    show ?thesis
      unfolding e mark_eols_Cons
      using Cons.IH[of "fld @ [CHR 0x22]"] True
      by (simp add: eol_after_quote quoted_quote del: read_stream.simps)
  next
    case False
    have e: "csv_escape (c # f) = c # csv_escape f"
      using False by (simp add: csv_escape_def)
    show ?thesis
      unfolding e mark_eols_Cons
      using Cons.IH[of "fld @ [c]"] False
      by (simp add: quoted_char quoted_eol del: read_stream.simps)
  qed
qed

lemma mark_eols_quote: "mark_eols (Some d) [CHR 0x22] = [Some (CHR 0x22)]"
  by (simp add: eol_after_def)

lemma read_field:
  assumes "st = START_RECORD \<or> st = START_FIELD"
  shows "read_stream (st, fs, []) acc (mark_eols (Some d) (csv_field f) @ rest) =
     read_stream
       (if list_ex csv_special f then QUOTE_IN_QUOTED_FIELD else if f = [] then st else IN_FIELD,
        fs, f) acc rest"
proof (cases "list_ex csv_special f")
  case True
  have m: "mark_eols (Some d) (csv_field f) =
      Some (CHR 0x22) # mark_eols (Some (CHR 0x22)) (csv_escape f) @ [Some (CHR 0x22)]"
    using True
    by (simp add: csv_field_def mark_eols_Cons eol_after_quote mark_eols_append mark_eols_quote
        del: mark_eols.simps(2))
  have s: "\<And>xs. read_stream (st, fs, []) acc (Some (CHR 0x22) # xs) =
      read_stream (IN_QUOTED_FIELD, fs, []) acc xs"
    using assms by (auto simp: is_nl_def)
  have q: "\<And>xs. read_stream (IN_QUOTED_FIELD, fs, f) acc (Some (CHR 0x22) # xs) =
      read_stream (QUOTE_IN_QUOTED_FIELD, fs, f) acc xs"
    by simp
  show ?thesis
    using True read_quoted[of fs "[]" acc "CHR 0x22" f "Some (CHR 0x22) # rest"]
    by (simp add: m s q del: read_stream.simps)
next
  case False
  note plain = this
  show ?thesis
  proof (cases f)
    case Nil
    then show ?thesis using plain by (simp add: csv_field_def)
  next
    case (Cons c r)
    then have c: "\<not> csv_special c" and r: "\<not> list_ex csv_special r"
      using plain by simp_all
    have m: "mark_eols (Some d) (csv_field f) = Some c # map Some r"
      using plain mark_eols_plain[OF plain, of d] Cons by (simp add: csv_field_def)
    have s: "\<And>xs. read_stream (st, fs, []) acc (Some c # xs) = read_stream (IN_FIELD, fs, [c]) acc xs"
      using assms c by (auto simp: is_nl_def csv_special_def)
    have "read_stream (st, fs, []) acc (mark_eols (Some d) (csv_field f) @ rest) =
        read_stream (IN_FIELD, fs, [c]) acc (map Some r @ rest)"
      unfolding m by (simp add: s del: read_stream.simps)
    also have "\<dots> = read_stream (IN_FIELD, fs, [c] @ r) acc rest"
      by (rule read_in_field[OF r])
    finally show ?thesis using plain Cons by simp
  qed
qed

lemma after_field_comma:
  assumes "st \<in> {QUOTE_IN_QUOTED_FIELD, IN_FIELD, START_FIELD, START_RECORD}"
    and "st \<in> {START_FIELD, START_RECORD} \<longrightarrow> f = []"
  shows "read_stream (st, fs, f) acc (Some (CHR '','') # rest) =
     read_stream (START_FIELD, fs @ [f], []) acc rest"
  using assms by (auto simp: is_nl_def)

lemma after_field_crlf:
  assumes "st \<in> {QUOTE_IN_QUOTED_FIELD, IN_FIELD, START_FIELD}"
    and "st = START_FIELD \<longrightarrow> f = []"
  shows "read_stream (st, fs, f) acc (Some (CHR 0x0D) # Some (CHR 0x0A) # None # rest) =
     read_stream reader_reset (acc @ [fs @ [f]]) rest"
  using assms by (auto simp: is_nl_def after_nl_def)

lemma read_row:
  assumes "row \<noteq> []" and "st = START_FIELD \<or> (st = START_RECORD \<and> row \<noteq> [[]])"
  shows "read_stream (st, fs, []) acc
       (mark_eols (Some (CHR 0x0D)) (csv_join row) @
        Some (CHR 0x0D) # Some (CHR 0x0A) # None # rest) =
     read_stream reader_reset (acc @ [fs @ row]) rest"
  using assms
proof (induction row arbitrary: st fs rule: csv_join.induct)
  case 1
  then show ?case by simp
next
  case (2 f)
  let ?st' = "if list_ex csv_special f then QUOTE_IN_QUOTED_FIELD else if f = [] then st else IN_FIELD"
  have st: "st = START_RECORD \<or> st = START_FIELD" using 2 by auto
  have a: "?st' \<in> {QUOTE_IN_QUOTED_FIELD, IN_FIELD, START_FIELD}" "?st' = START_FIELD \<longrightarrow> f = []"
    using 2 by auto
  show ?case
    using read_field[OF st, of fs acc "CHR 0x0D" f] after_field_crlf[OF a, of fs acc rest]
    by (simp del: read_stream.simps mark_eols.simps(2))
next
  case (3 f g r)
  let ?st' = "if list_ex csv_special f then QUOTE_IN_QUOTED_FIELD else if f = [] then st else IN_FIELD"
  have st: "st = START_RECORD \<or> st = START_FIELD" using 3 by auto
  have a: "?st' \<in> {QUOTE_IN_QUOTED_FIELD, IN_FIELD, START_FIELD, START_RECORD}"
    "?st' \<in> {START_FIELD, START_RECORD} \<longrightarrow> f = []"
    using st by auto
  have m: "mark_eols (Some (CHR 0x0D)) (csv_join (f # g # r)) =
      mark_eols (Some (CHR '','')) (csv_field f) @ Some (CHR '','') #
      mark_eols (Some (CHR 0x0D)) (csv_join (g # r))"
    by (simp add: mark_eols_append mark_eols_Cons eol_after_def del: mark_eols.simps(2))
  have ih: "read_stream (START_FIELD, fs @ [f], []) acc
       (mark_eols (Some (CHR 0x0D)) (csv_join (g # r)) @
        Some (CHR 0x0D) # Some (CHR 0x0A) # None # rest) =
     read_stream reader_reset (acc @ [(fs @ [f]) @ g # r]) rest"
    by (rule "3.IH") simp_all
  show ?case
    unfolding m
    using read_field[OF st, of fs acc "CHR '',''" f] after_field_comma[OF a, of fs acc] ih
    by (simp del: read_stream.simps mark_eols.simps(2) csv_join.simps)
qed

lemma read_written_row:
  assumes "row \<noteq> []"
  shows "read_stream reader_reset acc (mark_eols la (writerow row) @ rest) =
     read_stream reader_reset (acc @ [row]) rest"
proof (cases "row = [[]]")
  case True
  have m: "mark_eols la (writerow [[]]) =
      [Some (CHR 0x22), Some (CHR 0x22), Some (CHR 0x0D), Some (CHR 0x0A), None]"
    by (simp add: writerow_def eol_after_def)
  show ?thesis
    unfolding True m by (simp add: reader_reset_def is_nl_def after_nl_def)
next
  case False
  have m: "mark_eols la (writerow row) =
      mark_eols (Some (CHR 0x0D)) (csv_join row) @ [Some (CHR 0x0D), Some (CHR 0x0A), None]"
    using False
    by (simp add: writerow_def mark_eols_append mark_eols_crlf del: mark_eols.simps(2))
  show ?thesis
    unfolding m
    using read_row[OF assms, of START_RECORD "[]" acc rest] False
    by (simp add: reader_reset_def del: read_stream.simps)
qed

lemma read_written_rows:
  assumes "\<forall>row \<in> set rows. row \<noteq> []"
  shows "read_stream reader_reset acc (mark_eols None (concat (map writerow rows))) = Inr (acc @ rows)"
  using assms
proof (induction rows arbitrary: acc)
  case Nil
  show ?case by (simp add: reader_reset_def)
next
  case (Cons row rows)
  then have ne: "row \<noteq> []" and rest: "\<forall>row \<in> set rows. row \<noteq> []" by simp_all
  have "read_stream reader_reset acc (mark_eols None (concat (map writerow (row # rows)))) =
      read_stream reader_reset (acc @ [row]) (mark_eols None (concat (map writerow rows)))"
    using read_written_row[OF ne] by (simp add: mark_eols_append del: mark_eols.simps(2))
  then show ?case using Cons.IH[OF rest, of "acc @ [row]"] by simp
qed

lemma csv_read_written:
  "\<forall>row \<in> set rows. row \<noteq> [] \<Longrightarrow> csv_read (concat (map writerow rows)) = Inr rows"
  using read_written_rows[of rows "[]"] by (simp add: csv_read_def)

lemma write_rows_concat:
  "write_rows cs f = f @ concat (map (\<lambda>c. writerow (course_fields c)) cs)"
  by (induction cs arbitrary: f) (simp_all add: course_fields_def)

lemma save_csv_writes:
  "writable path \<Longrightarrow>
   save_csv writable cs path w =
     Inr (w\<lparr>files := (files w)(path \<mapsto> concat (map writerow (csv_header # map course_fields cs))),
           stdout := stdout w @ [''Saved '' @ str_nat (length cs) @ '' courses to '' @ path]\<rparr>)"
  by (simp add: save_csv_def write_rows_concat csv_header_def comp_def Let_def)

section \<open>The claims\<close>

text \<open>
  Claim C1. The pair parser gives \<open>(9, 25)\<close> on \<open>9 / 25\<close>, \<open>(0, 0)\<close> on \<open>bad\<close> and
  \<open>(0, 46)\<close> on \<open>0/46\<close>. On the decimal texts of two integers \<open>a\<close> and \<open>b\<close> around
  one separator, with any white space around the numbers, it gives \<open>(a, b)\<close> (for
  integers that the interpreter's digit limit lets through); on any two pieces around
  one separator it gives the two values of \<^verbatim>\<open>int\<close> on the trimmed pieces, and \<open>(0, 0)\<close>
  when either fails; whenever the parse raises, the result is \<open>(0, 0)\<close>. A record is in
  the flagged list if and only if it is a record of the input whose enrolled figure
  parses to a current value of at most 10 or whose wait-list figure parses to a current
  value above 0.
\<close>

theorem flagging_predicate:
  "parse_pair m ''9 / 25'' = Inr (9, 25) \<and>
   parse_pair m ''bad'' = Inr (0, 0) \<and>
   parse_pair m ''0/46'' = Inr (0, 46) \<and>
   (\<forall>a b w1 w2 w3 w4.
      list_all str_isspace (w1 @ w2 @ w3 @ w4) \<and> int_within_limit m a \<and> int_within_limit m b \<longrightarrow>
      parse_pair m (w1 @ str_int a @ w2 @ ''/'' @ w3 @ str_int b @ w4) = Inr (a, b)) \<and>
   (\<forall>a b. CHR ''/'' \<notin> set a \<and> CHR ''/'' \<notin> set b \<longrightarrow>
      parse_pair m (a @ ''/'' @ b) =
        (case (py_int m (str_strip a), py_int m (str_strip b)) of
           (Inr x, Inr y) \<Rightarrow> Inr (x, y)
         | _ \<Rightarrow> Inr (0, 0))) \<and>
   (\<forall>s e. parse_pair_try m s = Inl e \<longrightarrow> parse_pair m s = Inr (0, 0)) \<and>
   (\<forall>cs. \<exists>fl. flagged_of m cs = Inr fl \<and>
      (\<forall>c. c \<in> set fl \<longleftrightarrow>
         c \<in> set cs \<and>
         (\<exists>ec el wc wl.
            parse_pair m (enrolled c) = Inr (ec, el) \<and>
            parse_pair m (wait_list c) = Inr (wc, wl) \<and>
            (ec \<le> 10 \<or> wc > 0))))"
proof (intro conjI allI impI)
  show "parse_pair m ''9 / 25'' = Inr (9, 25)" by (rule parse_example1)
  show "parse_pair m ''bad'' = Inr (0, 0)" by (rule parse_example2)
  show "parse_pair m ''0/46'' = Inr (0, 46)" by (rule parse_example3)
next
  fix a b w1 w2 w3 w4
  assume "list_all str_isspace (w1 @ w2 @ w3 @ w4) \<and> int_within_limit m a \<and> int_within_limit m b"
  then show "parse_pair m (w1 @ str_int a @ w2 @ ''/'' @ w3 @ str_int b @ w4) = Inr (a, b)"
    by (intro parse_pair_shape) (simp_all add: int_within_limit_def)
next
  fix a b :: string
  assume "CHR ''/'' \<notin> set a \<and> CHR ''/'' \<notin> set b"
  then show "parse_pair m (a @ ''/'' @ b) =
        (case (py_int m (str_strip a), py_int m (str_strip b)) of
           (Inr x, Inr y) \<Rightarrow> Inr (x, y)
         | _ \<Rightarrow> Inr (0, 0))"
    by (intro parse_pair_split) simp_all
next
  fix s e
  assume "parse_pair_try m s = Inl e"
  then show "parse_pair m s = Inr (0, 0)" by (simp add: parse_pair_def)
next
  fix cs
  have "\<And>c. is_flagged m c \<longleftrightarrow>
         (\<exists>ec el wc wl.
            parse_pair m (enrolled c) = Inr (ec, el) \<and>
            parse_pair m (wait_list c) = Inr (wc, wl) \<and>
            (ec \<le> 10 \<or> wc > 0))"
    using parse_pair_total by (fastforce simp: is_flagged_def split: sum.splits prod.splits)
  then show "\<exists>fl. flagged_of m cs = Inr fl \<and>
      (\<forall>c. c \<in> set fl \<longleftrightarrow>
         c \<in> set cs \<and>
         (\<exists>ec el wc wl.
            parse_pair m (enrolled c) = Inr (ec, el) \<and>
            parse_pair m (wait_list c) = Inr (wc, wl) \<and>
            (ec \<le> 10 \<or> wc > 0)))"
    by (simp add: flagged_of_filter)
qed

theorem flagging_predicate_witness:
  "(list_all str_isspace ('' '' @ '' '' @ [CHR 0x09] @ '''') \<and>
    int_within_limit 4300 12 \<and> int_within_limit 4300 (- 7) \<and>
    parse_pair 4300 ('' '' @ str_int 12 @ '' '' @ ''/'' @ [CHR 0x09] @ str_int (- 7) @ '''') = Inr (12, - 7)) \<and>
   (CHR ''/'' \<notin> set ''4 '' \<and> CHR ''/'' \<notin> set ''x'' \<and> parse_pair 4300 (''4 '' @ ''/'' @ ''x'') = Inr (0, 0)) \<and>
   (parse_pair_try 4300 ''1/2/3'' = Inl ValueError \<and> parse_pair 4300 ''1/2/3'' = Inr (0, 0))"
proof -
  note t = flagging_predicate [of 4300]
  have h1: "list_all str_isspace ('' '' @ '' '' @ [CHR 0x09] @ '''')"
    by (simp add: str_isspace_def)
  have h2: "int_within_limit 4300 12" "int_within_limit 4300 (- 7)"
    by (simp_all add: int_within_limit_def str_nat.simps)
  have h3: "CHR ''/'' \<notin> set ''4 ''" "CHR ''/'' \<notin> set ''x''"
    by simp_all
  have h4: "parse_pair_try 4300 ''1/2/3'' = Inl ValueError"
    by (simp add: parse_pair_try_def)
  have c1: "parse_pair 4300 ('' '' @ str_int 12 @ '' '' @ ''/'' @ [CHR 0x09] @ str_int (- 7) @ '''') = Inr (12, - 7)"
    using t h1 h2 by blast
  have "parse_pair 4300 (''4 '' @ ''/'' @ ''x'') =
        (case (py_int 4300 (str_strip ''4 ''), py_int 4300 (str_strip ''x'')) of
           (Inr x, Inr y) \<Rightarrow> Inr (x, y)
         | _ \<Rightarrow> Inr (0, 0))"
    using t h3 by blast
  then have c2: "parse_pair 4300 (''4 '' @ ''/'' @ ''x'') = Inr (0, 0)"
    by (simp add: parse_eval)
  have c3: "parse_pair 4300 ''1/2/3'' = Inr (0, 0)"
    using t h4 by blast
  show ?thesis using h1 h2 h3 h4 c1 c2 c3 by blast
qed

text \<open>
  Claim C2 says that a record whose enrolled and wait-list strings both fail to parse
  is never flagged, as the comment above \<^verbatim>\<open>_parse_pair\<close> does (a course whose parse
  fails is skipped in the special section). The code flags it: both parses raise, the
  default \<open>(0, 0)\<close> makes the enrolled current value \<open>0\<close>, and \<open>0 \<le> 10\<close>; the record is
  printed in the main table and again in the flagged section.
\<close>

theorem unparseable_record_is_flagged:
  "parse_pair_try m (enrolled unparseable_course) = Inl ValueError \<and>
   parse_pair_try m (wait_list unparseable_course) = Inl ValueError \<and>
   flagged_of m [unparseable_course] = Inr [unparseable_course] \<and>
   print_courses m [unparseable_course] =
     Inr [''Title    Class       Enrolled  Wait List'',
          ''----------------------------------------'',
          ''Seminar  CST 399-01  bad       bad      '',
          interest_heading,
          ''Title    Class       Enrolled  Wait List'',
          ''----------------------------------------'',
          ''Seminar  CST 399-01  bad       bad      '']"
proof -
  have p: "parse_pair_try m ''bad'' = Inl ValueError"
    by (simp add: parse_pair_try_def)
  have f: "is_flagged m unparseable_course"
    by (simp add: is_flagged_def unparseable_course_def parse_example2)
  have w: "spec_widths [unparseable_course] = (7, 10, 8, 9)"
    by (simp add: spec_widths_def spec_width_def unparseable_course_def)
  have t: "spec_table (7, 10, 8, 9) [unparseable_course] =
      [''Title    Class       Enrolled  Wait List'',
       ''----------------------------------------'',
       ''Seminar  CST 399-01  bad       bad      '']"
    by code_simp
  have "print_courses m [unparseable_course] =
      Inr (spec_table (7, 10, 8, 9) [unparseable_course] @
           interest_heading # spec_table (7, 10, 8, 9) [unparseable_course])"
    using print_courses_table[of "[unparseable_course]" m] f by (simp add: w)
  then show ?thesis
    unfolding t using p f by (simp add: flagged_of_filter unparseable_course_def)
qed

text \<open>
  Claim C3 says that, of the two records of the scenario, the flagged list is exactly
  the first. It is not: the second record has three students on its wait list.
\<close>

theorem scenario_flagged_counterexample:
  "flagged_of 4300 [scenario_first, scenario_second] \<noteq> Inr [scenario_first]"
  by (simp add: flagged_of_def scenario_first_def scenario_second_def
      parse_example1 parse_example7 parse_example8 parse_example9)

text \<open>
  Claim C3, amended. Of the two records of the scenario, both are flagged, in their
  order: the first because its enrolled current value 9 is at most 10, the second
  because its wait-list current value 3 is above 0 (its enrolled current value is 25).
\<close>

theorem scenario_flags_both:
  "flagged_of m [scenario_first, scenario_second] = Inr [scenario_first, scenario_second] \<and>
   parse_pair m (enrolled scenario_first) = Inr (9, 25) \<and>
   parse_pair m (wait_list scenario_first) = Inr (0, 0) \<and>
   parse_pair m (enrolled scenario_second) = Inr (25, 25) \<and>
   parse_pair m (wait_list scenario_second) = Inr (3, 5)"
  by (simp add: flagged_of_def scenario_first_def scenario_second_def
      parse_example1 parse_example7 parse_example8 parse_example9)

text \<open>
  Claim C4. For every non-empty sequence of records, each of the four column widths is
  the maximum of the header label's length and of the lengths of that field over all
  records; every field and every label is printed padded to exactly that width; and the
  flagged sub-table, when there is one, is printed with the same widths, those of the
  full sequence, not of the flagged records.
\<close>

theorem widths_over_all_records:
  assumes "cs \<noteq> []"
  shows "column_widths cs = Inr (spec_widths cs) \<and>
     print_courses m cs =
       Inr (spec_table (spec_widths cs) cs @
            (if filter (is_flagged m) cs = [] then []
             else interest_heading # spec_table (spec_widths cs) (filter (is_flagged m) cs))) \<and>
     (\<forall>c \<in> set cs.
        length (fmt_left (title c) (spec_width ''Title'' title cs)) = spec_width ''Title'' title cs \<and>
        length (fmt_left (class_code c) (spec_width ''Class'' class_code cs)) = spec_width ''Class'' class_code cs \<and>
        length (fmt_left (enrolled c) (spec_width ''Enrolled'' enrolled cs)) = spec_width ''Enrolled'' enrolled cs \<and>
        length (fmt_left (wait_list c) (spec_width ''Wait List'' wait_list cs)) = spec_width ''Wait List'' wait_list cs) \<and>
     length (fmt_left ''Title'' (spec_width ''Title'' title cs)) = spec_width ''Title'' title cs \<and>
     length (fmt_left ''Class'' (spec_width ''Class'' class_code cs)) = spec_width ''Class'' class_code cs \<and>
     length (fmt_left ''Enrolled'' (spec_width ''Enrolled'' enrolled cs)) = spec_width ''Enrolled'' enrolled cs \<and>
     length (fmt_left ''Wait List'' (spec_width ''Wait List'' wait_list cs)) = spec_width ''Wait List'' wait_list cs"
  using assms
  by (intro conjI ballI column_widths_spec print_courses_table length_fmt_left spec_width_bounds)

theorem widths_over_all_records_witness:
  "[quiet_course, scenario_first] \<noteq> [] \<and>
   column_widths [quiet_course, scenario_first] = Inr (17, 10, 8, 9) \<and>
   print_courses 4300 [quiet_course, scenario_first] =
     Inr [''Title              Class       Enrolled  Wait List'',
          ''--------------------------------------------------'',
          ''Operating Systems  CST 333-01  20 / 25   0 / 5    '',
          ''Intro to CS        CST 150-01  9 / 25    0 / 0    '',
          interest_heading,
          ''Title              Class       Enrolled  Wait List'',
          ''--------------------------------------------------'',
          ''Intro to CS        CST 150-01  9 / 25    0 / 0    '']"
proof -
  have ne: "[quiet_course, scenario_first] \<noteq> []" by simp
  note t = widths_over_all_records [OF ne, of 4300]
  have w: "spec_widths [quiet_course, scenario_first] = (17, 10, 8, 9)"
    by (simp add: spec_widths_def spec_width_def quiet_course_def scenario_first_def)
  have f: "filter (is_flagged 4300) [quiet_course, scenario_first] = [scenario_first]"
    by (simp add: is_flagged_examples)
  have r: "spec_table (17, 10, 8, 9) [quiet_course, scenario_first] =
        [''Title              Class       Enrolled  Wait List'',
          ''--------------------------------------------------'',
          ''Operating Systems  CST 333-01  20 / 25   0 / 5    '',
          ''Intro to CS        CST 150-01  9 / 25    0 / 0    '']"
    by code_simp
  have r': "spec_table (17, 10, 8, 9) [scenario_first] =
        [''Title              Class       Enrolled  Wait List'',
          ''--------------------------------------------------'',
          ''Intro to CS        CST 150-01  9 / 25    0 / 0    '']"
    by code_simp
  from t have "column_widths [quiet_course, scenario_first] = Inr (17, 10, 8, 9)"
    unfolding w by blast
  moreover from t have "print_courses 4300 [quiet_course, scenario_first] =
     Inr [''Title              Class       Enrolled  Wait List'',
          ''--------------------------------------------------'',
          ''Operating Systems  CST 333-01  20 / 25   0 / 5    '',
          ''Intro to CS        CST 150-01  9 / 25    0 / 0    '',
          interest_heading,
          ''Title              Class       Enrolled  Wait List'',
          ''--------------------------------------------------'',
          ''Intro to CS        CST 150-01  9 / 25    0 / 0    '']"
    unfolding w f r r' by simp
  ultimately show ?thesis using ne by blast
qed

text \<open>
  Claim C5. Where the file can be opened, the export of \<open>N\<close> records writes the header
  row Title, Class, Enrolled, Wait List followed by one row per record, in the order of
  the records: \<open>N + 1\<close> rows; and it reports the count: the line printed holds the
  decimal text of \<open>N\<close>. When no field contains a comma or a quote, reading the file back
  gives the header and then, for each record in order, its four fields unchanged.
\<close>

theorem csv_export_round_trip:
  "(writable path \<longrightarrow>
      (\<exists>w'. save_csv writable cs path w = Inr w' \<and>
         files w' path = Some (concat (map writerow (csv_header # map course_fields cs))) \<and>
         length (csv_header # map course_fields cs) = length cs + 1 \<and>
         stdout w' = stdout w @ [''Saved '' @ str_nat (length cs) @ '' courses to '' @ path] \<and>
         digits_value (map digit_val (str_nat (length cs))) = length cs)) \<and>
   ((\<forall>c \<in> set cs. \<forall>f \<in> set (course_fields c). CHR '','' \<notin> set f \<and> CHR 0x22 \<notin> set f) \<longrightarrow>
      csv_read (concat (map writerow (csv_header # map course_fields cs))) =
        Inr (csv_header # map course_fields cs))"
proof (intro conjI impI)
  assume "writable path"
  then show "\<exists>w'. save_csv writable cs path w = Inr w' \<and>
         files w' path = Some (concat (map writerow (csv_header # map course_fields cs))) \<and>
         length (csv_header # map course_fields cs) = length cs + 1 \<and>
         stdout w' = stdout w @ [''Saved '' @ str_nat (length cs) @ '' courses to '' @ path] \<and>
         digits_value (map digit_val (str_nat (length cs))) = length cs"
    by (simp add: save_csv_writes str_nat_value)
next
  have "\<forall>row \<in> set (csv_header # map course_fields cs). row \<noteq> []"
    by (auto simp: csv_header_def course_fields_def)
  then show "csv_read (concat (map writerow (csv_header # map course_fields cs))) =
        Inr (csv_header # map course_fields cs)"
    by (rule csv_read_written)
qed

theorem csv_export_round_trip_witness:
  "(\<exists>w'. save_csv (\<lambda>p. True) [scenario_first, scenario_second] ''out.csv'' \<lparr>files = (\<lambda>p. None), stdout = []\<rparr> = Inr w' \<and>
      files w' ''out.csv'' =
        Some (''Title,Class,Enrolled,Wait List'' @ [CHR 0x0D, CHR 0x0A] @
              ''Intro to CS,CST 150-01,9 / 25,0 / 0'' @ [CHR 0x0D, CHR 0x0A] @
              ''Data Structures,CST 250-01,25 / 25,3 / 5'' @ [CHR 0x0D, CHR 0x0A]) \<and>
      stdout w' = [''Saved 2 courses to out.csv'']) \<and>
   csv_read (''Title,Class,Enrolled,Wait List'' @ [CHR 0x0D, CHR 0x0A] @
              ''Intro to CS,CST 150-01,9 / 25,0 / 0'' @ [CHR 0x0D, CHR 0x0A] @
              ''Data Structures,CST 250-01,25 / 25,3 / 5'' @ [CHR 0x0D, CHR 0x0A]) =
     Inr [[''Title'', ''Class'', ''Enrolled'', ''Wait List''],
          [''Intro to CS'', ''CST 150-01'', ''9 / 25'', ''0 / 0''],
          [''Data Structures'', ''CST 250-01'', ''25 / 25'', ''3 / 5'']]"
proof -
  let ?cs = "[scenario_first, scenario_second]"
  note t = csv_export_round_trip [of "\<lambda>p. True" "''out.csv''" ?cs "\<lparr>files = (\<lambda>p. None), stdout = []\<rparr>"]
  have h: "\<forall>c \<in> set ?cs. \<forall>f \<in> set (course_fields c). CHR '','' \<notin> set f \<and> CHR 0x22 \<notin> set f"
    by (simp add: course_fields_def scenario_first_def scenario_second_def)
  have x: "concat (map writerow (csv_header # map course_fields ?cs)) =
       ''Title,Class,Enrolled,Wait List'' @ [CHR 0x0D, CHR 0x0A] @
       ''Intro to CS,CST 150-01,9 / 25,0 / 0'' @ [CHR 0x0D, CHR 0x0A] @
       ''Data Structures,CST 250-01,25 / 25,3 / 5'' @ [CHR 0x0D, CHR 0x0A]"
    by code_simp
  have r: "csv_header # map course_fields ?cs =
       [[''Title'', ''Class'', ''Enrolled'', ''Wait List''],
          [''Intro to CS'', ''CST 150-01'', ''9 / 25'', ''0 / 0''],
          [''Data Structures'', ''CST 250-01'', ''25 / 25'', ''3 / 5'']]"
    by (simp add: csv_header_def course_fields_def scenario_first_def scenario_second_def)
  have n: "str_nat (length ?cs) = ''2''" by code_simp
  from t have a: "\<exists>w'. save_csv (\<lambda>p. True) ?cs ''out.csv'' \<lparr>files = (\<lambda>p. None), stdout = []\<rparr> = Inr w' \<and>
      files w' ''out.csv'' = Some (concat (map writerow (csv_header # map course_fields ?cs))) \<and>
      stdout w' = stdout \<lparr>files = (\<lambda>p. None), stdout = []\<rparr> @
        [''Saved '' @ str_nat (length ?cs) @ '' courses to '' @ ''out.csv'']"
    by blast
  from t h have b: "csv_read (concat (map writerow (csv_header # map course_fields ?cs))) =
      Inr (csv_header # map course_fields ?cs)"
    by blast
  from a have a': "\<exists>w'. save_csv (\<lambda>p. True) ?cs ''out.csv'' \<lparr>files = (\<lambda>p. None), stdout = []\<rparr> = Inr w' \<and>
      files w' ''out.csv'' =
        Some (''Title,Class,Enrolled,Wait List'' @ [CHR 0x0D, CHR 0x0A] @
              ''Intro to CS,CST 150-01,9 / 25,0 / 0'' @ [CHR 0x0D, CHR 0x0A] @
              ''Data Structures,CST 250-01,25 / 25,3 / 5'' @ [CHR 0x0D, CHR 0x0A]) \<and>
      stdout w' = [''Saved 2 courses to out.csv'']"
    unfolding x n by simp
  from b have b': "csv_read (''Title,Class,Enrolled,Wait List'' @ [CHR 0x0D, CHR 0x0A] @
              ''Intro to CS,CST 150-01,9 / 25,0 / 0'' @ [CHR 0x0D, CHR 0x0A] @
              ''Data Structures,CST 250-01,25 / 25,3 / 5'' @ [CHR 0x0D, CHR 0x0A]) =
     Inr [[''Title'', ''Class'', ''Enrolled'', ''Wait List''],
          [''Intro to CS'', ''CST 150-01'', ''9 / 25'', ''0 / 0''],
          [''Data Structures'', ''CST 250-01'', ''25 / 25'', ''3 / 5'']]"
    unfolding x unfolding r .
  from a' b' show ?thesis by (rule conjI)
qed

text \<open>
  Claim C6. For the empty sequence the reporter prints the notice that no courses were
  found and nothing else. The CSV export of no records fails only if the file cannot
  be opened; otherwise it writes the header row alone and reports 0 records.
\<close>

theorem empty_sequence_report:
  "print_courses m [] =
     Inr [''No courses were found.  Verify the term code and try again.''] \<and>
   save_csv writable [] path w =
     (if writable path
      then Inr (w\<lparr>files := (files w)(path \<mapsto> ''Title,Class,Enrolled,Wait List'' @ [CHR 0x0D, CHR 0x0A]),
                 stdout := stdout w @ [''Saved 0 courses to '' @ path]\<rparr>)
      else Inl OSError)"
proof (intro conjI)
  show "print_courses m [] =
     Inr [''No courses were found.  Verify the term code and try again.'']"
    by (simp add: print_courses_def no_courses_msg_def)
  have h: "writerow [''Title'', ''Class'', ''Enrolled'', ''Wait List''] =
      ''Title,Class,Enrolled,Wait List'' @ [CHR 0x0D, CHR 0x0A]"
    by (simp add: writerow_def csv_field_def csv_special_def)
  have z: "str_nat 0 = ''0''" by code_simp
  show "save_csv writable [] path w =
     (if writable path
      then Inr (w\<lparr>files := (files w)(path \<mapsto> ''Title,Class,Enrolled,Wait List'' @ [CHR 0x0D, CHR 0x0A]),
                 stdout := stdout w @ [''Saved 0 courses to '' @ path]\<rparr>)
      else Inl OSError)"
    by (simp add: save_csv_def h z)
qed

text \<open>
  Claim C7. A container is read with an exception exactly when one of its four
  sub-fields cannot be read. The loop returns the records of the containers that can
  be read in full, in their order: a container that cannot contributes nothing, no
  placeholder and no partial record, and the containers before and after it are
  treated as without it. When every call on the session succeeds, \<^verbatim>\<open>collect_courses\<close>
  returns that list whatever containers fail.
\<close>

theorem failing_container_is_omitted:
  "((\<exists>e. read_box b = Inl e) \<longleftrightarrow> \<not> box_complete b) \<and>
   boxes_loop bs [] = map box_record (filter box_complete bs) \<and>
   boxes_loop (bs1 @ b # bs2) [] =
     boxes_loop bs1 [] @ (if box_complete b then [box_record b] else []) @ boxes_loop bs2 [] \<and>
   (launch env headless = None \<and> (\<forall>c. fails env c = None) \<longrightarrow>
      fst (collect_courses env t headless) =
        Inr (map box_record (filter box_complete (course_boxes env))))"
proof (intro conjI impI)
  show "(\<exists>e. read_box b = Inl e) \<longleftrightarrow> \<not> box_complete b"
    using read_box_complete read_box_incomplete by (cases "box_complete b") auto
  show "boxes_loop bs [] = map box_record (filter box_complete bs)"
    by (simp add: boxes_loop_filter)
  show "boxes_loop (bs1 @ b # bs2) [] =
     boxes_loop bs1 [] @ (if box_complete b then [box_record b] else []) @ boxes_loop bs2 []"
    by (simp add: boxes_loop_filter)
next
  assume a: "launch env headless = None \<and> (\<forall>c. fails env c = None)"
  then have "run_calls (fails env) (navigation t) [] = (None, [] @ navigation t)"
    by (intro run_calls_ok) simp
  then show "fst (collect_courses env t headless) =
        Inr (map box_record (filter box_complete (course_boxes env)))"
    using a by (simp add: collect_courses_def try_body_def boxes_loop_filter)
qed

theorem failing_container_is_omitted_witness:
  "\<not> box_complete (box_without_wait_list ''CST 250-01'') \<and>
   launch (steady_browser [full_box '' 9 / 25 '', box_without_wait_list ''CST 250-01'', full_box ''3 / 5'']) True = None \<and>
   (\<forall>c. fails (steady_browser [full_box '' 9 / 25 '', box_without_wait_list ''CST 250-01'', full_box ''3 / 5'']) c = None) \<and>
   fst (collect_courses (steady_browser [full_box '' 9 / 25 '', box_without_wait_list ''CST 250-01'', full_box ''3 / 5'']) ''202610'' True) =
     Inr [\<lparr>title = ''9 / 25'', class_code = ''9 / 25'', enrolled = ''9 / 25'', wait_list = ''9 / 25''\<rparr>,
          \<lparr>title = ''3 / 5'', class_code = ''3 / 5'', enrolled = ''3 / 5'', wait_list = ''3 / 5''\<rparr>]"
proof -
  let ?env = "steady_browser [full_box '' 9 / 25 '', box_without_wait_list ''CST 250-01'', full_box ''3 / 5'']"
  have n: "\<not> box_complete (box_without_wait_list ''CST 250-01'')"
    by (simp add: box_complete_def box_without_wait_list_def readable_def)
  have c: "box_complete (full_box '' 9 / 25 '')" "box_complete (full_box ''3 / 5'')"
    by (simp_all add: box_complete_def full_box_def readable_def)
  have r: "box_record (full_box '' 9 / 25 '') =
      \<lparr>title = ''9 / 25'', class_code = ''9 / 25'', enrolled = ''9 / 25'', wait_list = ''9 / 25''\<rparr>"
    "box_record (full_box ''3 / 5'') =
      \<lparr>title = ''3 / 5'', class_code = ''3 / 5'', enrolled = ''3 / 5'', wait_list = ''3 / 5''\<rparr>"
    by (simp_all add: box_record_def full_box_def str_strip_def str_isspace_def)
  have l: "launch ?env True = None" "\<forall>c. fails ?env c = None"
    by (simp_all add: steady_browser_def)
  have b: "course_boxes ?env = [full_box '' 9 / 25 '', box_without_wait_list ''CST 250-01'', full_box ''3 / 5'']"
    by (simp add: steady_browser_def)
  from failing_container_is_omitted [of _ _ _ _ ?env True "''202610''"] l
  have "fst (collect_courses ?env ''202610'' True) =
      Inr (map box_record (filter box_complete (course_boxes ?env)))"
    by blast
  then have "fst (collect_courses ?env ''202610'' True) =
     Inr [\<lparr>title = ''9 / 25'', class_code = ''9 / 25'', enrolled = ''9 / 25'', wait_list = ''9 / 25''\<rparr>,
          \<lparr>title = ''3 / 5'', class_code = ''3 / 5'', enrolled = ''3 / 5'', wait_list = ''3 / 5''\<rparr>]"
    unfolding b by (simp add: n c r)
  then show ?thesis using n l by blast
qed

text \<open>
  Claim C8. Once the session is created, \<^verbatim>\<open>collect_courses\<close> calls \<^verbatim>\<open>driver.quit()\<close>
  exactly once, as the last call on the session, whether the body returns or any of its
  calls raises. When the session cannot be created, that exception escapes and there is
  no session.
\<close>

theorem session_always_released:
  "(launch env headless = None \<longrightarrow>
      (\<exists>r tr. collect_courses env t headless = (r, Some (tr @ [Quit])) \<and> Quit \<notin> set tr)) \<and>
   (\<forall>e. launch env headless = Some e \<longrightarrow> collect_courses env t headless = (Inl e, None))"
  using collect_courses_quits by (auto simp: collect_courses_def)

theorem session_always_released_witness:
  "launch stalling_browser True = None \<and>
   collect_courses stalling_browser ''202610'' True =
     (Inl WebDriverException,
      Some ([Get ''https://banner.roosevelt.edu/ssbprod/bwskzenr.P_CourseFinder?TERM=202610'',
             WaitSubjects, NewSelect, DeselectAll, SelectByValue ''CST'', FindButton, Click,
             WaitResults] @ [Quit])) \<and>
   launch (steady_browser []) False = None \<and>
   collect_courses (steady_browser []) ''202610'' False =
     (Inr [],
      Some ([Get ''https://banner.roosevelt.edu/ssbprod/bwskzenr.P_CourseFinder?TERM=202610'',
             WaitSubjects, NewSelect, DeselectAll, SelectByValue ''CST'', FindButton, Click,
             WaitResults, ExecuteScript, Sleep, FindElements] @ [Quit]))"
proof -
  have l: "launch stalling_browser True = None" "launch (steady_browser []) False = None"
    by (simp_all add: stalling_browser_def steady_browser_def)
  from session_always_released [of stalling_browser True "''202610''"] l
  obtain r tr where 1: "collect_courses stalling_browser ''202610'' True = (r, Some (tr @ [Quit]))"
    by blast
  have "collect_courses stalling_browser ''202610'' True =
     (Inl WebDriverException,
      Some ([Get ''https://banner.roosevelt.edu/ssbprod/bwskzenr.P_CourseFinder?TERM=202610'',
             WaitSubjects, NewSelect, DeselectAll, SelectByValue ''CST'', FindButton, Click,
             WaitResults] @ [Quit]))"
    by (simp add: collect_courses_def try_body_def navigation_def stalling_browser_def)
  moreover
  from session_always_released [of "steady_browser []" False "''202610''"] l
  obtain r' tr' where 2: "collect_courses (steady_browser []) ''202610'' False = (r', Some (tr' @ [Quit]))"
    by blast
  have "collect_courses (steady_browser []) ''202610'' False =
     (Inr [],
      Some ([Get ''https://banner.roosevelt.edu/ssbprod/bwskzenr.P_CourseFinder?TERM=202610'',
             WaitSubjects, NewSelect, DeselectAll, SelectByValue ''CST'', FindButton, Click,
             WaitResults, ExecuteScript, Sleep, FindElements] @ [Quit]))"
    by (simp add: collect_courses_def try_body_def navigation_def steady_browser_def)
  ultimately show ?thesis using l 1 2 by blast
qed

text \<open>
  Claim C9. The flagged list is the filter of the input by the flagging predicate: a
  subsequence of the input in its order, holding exactly the records that satisfy the
  predicate. The rows printed for the flagged records are built from the same records
  with the same widths as in the main table, so they are a subsequence of its rows.
\<close>

theorem flagged_is_ordered_filter:
  "flagged_of m cs = Inr (filter (is_flagged m) cs) \<and>
   subseq (filter (is_flagged m) cs) cs \<and>
   (cs \<noteq> [] \<longrightarrow>
      (\<exists>ws. print_courses m cs =
         Inr (spec_table ws cs @
              (if filter (is_flagged m) cs = [] then []
               else interest_heading # spec_table ws (filter (is_flagged m) cs))) \<and>
         subseq (map (course_row ws) (filter (is_flagged m) cs)) (map (course_row ws) cs)))"
proof (intro conjI impI)
  show "flagged_of m cs = Inr (filter (is_flagged m) cs)" by (rule flagged_of_filter)
  show "subseq (filter (is_flagged m) cs) cs" by (rule subseq_filter_left)
next
  assume "cs \<noteq> []"
  from print_courses_table[OF this, of m]
  show "\<exists>ws. print_courses m cs =
         Inr (spec_table ws cs @
              (if filter (is_flagged m) cs = [] then []
               else interest_heading # spec_table ws (filter (is_flagged m) cs))) \<and>
         subseq (map (course_row ws) (filter (is_flagged m) cs)) (map (course_row ws) cs)"
    using subseq_map[OF subseq_filter_left] by blast
qed

theorem flagged_is_ordered_filter_witness:
  "[scenario_first, quiet_course, scenario_second] \<noteq> [] \<and>
   flagged_of 4300 [scenario_first, quiet_course, scenario_second] =
     Inr [scenario_first, scenario_second] \<and>
   (\<exists>ws. print_courses 4300 [scenario_first, quiet_course, scenario_second] =
      Inr (spec_table ws [scenario_first, quiet_course, scenario_second] @
           interest_heading # spec_table ws [scenario_first, scenario_second]))"
proof -
  have ne: "[scenario_first, quiet_course, scenario_second] \<noteq> []" by simp
  have f: "filter (is_flagged 4300) [scenario_first, quiet_course, scenario_second] =
      [scenario_first, scenario_second]"
    by (simp add: is_flagged_examples)
  note t = flagged_is_ordered_filter [of 4300 "[scenario_first, quiet_course, scenario_second]"]
  from t have 1: "flagged_of 4300 [scenario_first, quiet_course, scenario_second] =
     Inr [scenario_first, scenario_second]"
    unfolding f by blast
  from t ne have "\<exists>ws. print_courses 4300 [scenario_first, quiet_course, scenario_second] =
         Inr (spec_table ws [scenario_first, quiet_course, scenario_second] @
              (if [scenario_first, scenario_second] = [] then []
               else interest_heading # spec_table ws [scenario_first, scenario_second]))"
    unfolding f by blast
  then have 2: "\<exists>ws. print_courses 4300 [scenario_first, quiet_course, scenario_second] =
      Inr (spec_table ws [scenario_first, quiet_course, scenario_second] @
           interest_heading # spec_table ws [scenario_first, scenario_second])"
    by simp
  show ?thesis using ne 1 2 by blast
qed

text \<open>
  Claim C10. The pair parser is total: on every string it returns a pair of integers
  and raises nothing. A string whose number of separators is not one (none, as in the
  empty string, or more than one, as in \<open>1/2/3\<close>) gives \<open>(0, 0)\<close>, and the negative
  number of \<open>-3 / 25\<close> parses, to \<open>(-3, 25)\<close>.
\<close>

theorem parse_pair_never_raises:
  "(\<forall>s. \<exists>a b. parse_pair m s = Inr (a, b)) \<and>
   (\<forall>s. count_list s (CHR ''/'') \<noteq> 1 \<longrightarrow> parse_pair m s = Inr (0, 0)) \<and>
   parse_pair m ''1/2/3'' = Inr (0, 0) \<and>
   parse_pair m '''' = Inr (0, 0) \<and>
   parse_pair m ''-3 / 25'' = Inr (- 3, 25)"
  using parse_pair_total parse_pair_not_two parse_example4 parse_example5 parse_example6
  by blast

theorem parse_pair_never_raises_witness:
  "count_list ''no separator'' (CHR ''/'') \<noteq> 1 \<and> parse_pair 4300 ''no separator'' = Inr (0, 0)"
proof -
  have h: "count_list ''no separator'' (CHR ''/'') \<noteq> 1" by simp
  then show ?thesis using parse_pair_never_raises [of 4300] by blast
qed

end
